theory Spec2Isabelle
  imports Main
begin

section \<open>Python strings\<close>

text \<open>
  A Python \<open>str\<close> is a sequence of Unicode code points and \<open>len\<close> counts code points.
  The truncation marker of \<open>token_utils.py\<close> contains CJK characters, so a string is
  modelled as the list of its code points (a HOL \<open>char\<close> is only one byte).
\<close>

type_synonym pystr = "int list"

definition ascii :: "string \<Rightarrow> pystr" where
  "ascii s = map of_char s"

definition space :: int where
  "space = 32"

definition newlines :: pystr where
  "newlines = [10, 10]"

text \<open>
  The marker appended by \<open>truncate_text_by_tokens\<close> (line 76): two line feeds, an opening
  bracket, three CJK characters, the ASCII word \<open>token\<close>, five CJK characters, three
  dots and a closing bracket: 20 code points, none of them a space.
\<close>

definition marker :: pystr where
  "marker = [10, 10, 91, 20869, 23481, 22240, 116, 111, 107, 101, 110,
             38480, 21046, 34987, 25130, 26029, 46, 46, 46, 93]"

text \<open>\<open>s[:n]\<close> for an integer \<open>n\<close>; a negative \<open>n\<close> counts from the end.\<close>

definition py_slice_to :: "'a list \<Rightarrow> int \<Rightarrow> 'a list" where
  "py_slice_to xs n = (if 0 \<le> n then take (nat n) xs else take (nat (int (length xs) + n)) xs)"

text \<open>\<open>s.rfind(c)\<close> for a single character \<open>c\<close>: the highest index holding \<open>c\<close>, or \<open>-1\<close>.\<close>

primrec rfind :: "'a list \<Rightarrow> 'a \<Rightarrow> int" where
  "rfind [] c = -1"
| "rfind (x # xs) c =
     (let r = rfind xs c in if 0 \<le> r then r + 1 else if x = c then 0 else -1)"

text \<open>\<open>sep.join(parts)\<close>.\<close>

fun join :: "'a list \<Rightarrow> 'a list list \<Rightarrow> 'a list" where
  "join sep [] = []"
| "join sep [x] = x"
| "join sep (x # y # ys) = x @ sep @ join sep (y # ys)"

definition endswith :: "'a list \<Rightarrow> 'a list \<Rightarrow> bool" where
  "endswith s suffix = (length suffix \<le> length s \<and> drop (length s - length suffix) s = suffix)"

section \<open>The comparison \<open>last_space > char_limit * 0.8\<close>\<close>

text \<open>
  Line 73 multiplies a Python \<open>int\<close> by the \<open>float\<close> literal \<open>0.8\<close> and compares an \<open>int\<close>
  with the product. Python converts the \<open>int\<close> to the nearest IEEE double (ties to even),
  multiplies in double precision (round to nearest, ties to even) and then compares the
  \<open>int\<close> with the double exactly. The literal \<open>0.8\<close> is the double
  \<open>3602879701896397 / 2^52\<close>.

  \<open>bit_length\<close> is Python's \<open>int.bit_length\<close>. \<open>round53 n\<close> is \<open>n\<close> rounded to 53
  significant bits, ties to even. The doubles that occur here are integer multiples of
  \<open>2^-52\<close> and are kept scaled by \<open>2^52\<close>.
  (The conversion raises \<open>OverflowError\<close> only from \<open>2^1024\<close> on; line 73 is reached only
  when \<open>len(text) > char_limit\<close>, which no Python string of that length allows.)
\<close>

function bit_length :: "int \<Rightarrow> nat" where
  "bit_length n = (if n = 0 then 0 else Suc (bit_length (\<bar>n\<bar> div 2)))"
  by pat_completeness auto
termination
  by (relation "measure (\<lambda>n. nat \<bar>n\<bar>)") auto

declare bit_length.simps [simp del]

definition round53 :: "int \<Rightarrow> int" where
  "round53 n =
     (let a = \<bar>n\<bar>;
          e = bit_length a
      in if e \<le> 53 then n
         else
           let s = e - 53;
               q = a div 2 ^ s;
               r = a mod 2 ^ s;
               h = 2 ^ (s - 1)
           in sgn n * ((if h < r \<or> (r = h \<and> odd q) then q + 1 else q) * 2 ^ s))"

definition literal_08 :: int where
  "literal_08 = 3602879701896397"

text \<open>\<open>2^52 * (float(c) * 0.8)\<close>.\<close>

definition times_08 :: "int \<Rightarrow> int" where
  "times_08 c = round53 (round53 c * literal_08)"

text \<open>\<open>k > c * 0.8\<close> for Python ints \<open>k\<close> and \<open>c\<close>.\<close>

definition gt_times_08 :: "int \<Rightarrow> int \<Rightarrow> bool" where
  "gt_times_08 k c = (times_08 c < k * 2 ^ 52)"

section \<open>\<open>token_utils.py\<close>\<close>

subsection \<open>\<open>estimate_tokens\<close>\<close>

definition estimate_tokens :: "pystr \<Rightarrow> int" where
  "estimate_tokens text = (if text = [] then 0 else int (length text) div 4)"

subsection \<open>\<open>truncate_text_by_tokens\<close>\<close>

text \<open>The call of \<open>logger.warning\<close> on line 77 does not change the result and is left out.\<close>

definition truncate_text_by_tokens :: "pystr \<Rightarrow> int \<Rightarrow> pystr" where
  "truncate_text_by_tokens text max_tokens =
     (if text = [] \<or> max_tokens \<le> 0 then []
      else
        let estimated_tokens = estimate_tokens text in
        if estimated_tokens \<le> max_tokens then text
        else
          let char_limit = max_tokens * 4 in
          if char_limit < int (length text) then
            let truncated = py_slice_to text char_limit;
                last_space = rfind truncated space;
                truncated = (if gt_times_08 last_space char_limit
                             then py_slice_to truncated last_space else truncated)
            in truncated @ marker
          else text)"

text \<open>
  The index that line 72 stores in \<open>last_space\<close>, as a function of the text and the
  budget.
\<close>

definition last_space :: "pystr \<Rightarrow> int \<Rightarrow> int" where
  "last_space text max_tokens = rfind (py_slice_to text (max_tokens * 4)) space"

subsection \<open>\<open>truncate_search_results\<close>\<close>

text \<open>
  The argument is a string or a list. A list element is a \<open>dict\<close> with string keys and
  string values, or any other object, which the loop renders with \<open>str\<close>: \<open>NonDict s\<close>
  is an element whose \<open>str\<close> is \<open>s\<close>.
\<close>

type_synonym record_dict = "string \<rightharpoonup> pystr"

datatype result_item = Dict record_dict | NonDict pystr

datatype search_results = Text pystr | Results "result_item list"

text \<open>\<open>d.get(key, default)\<close>.\<close>

definition dict_get :: "record_dict \<Rightarrow> string \<Rightarrow> pystr \<Rightarrow> pystr" where
  "dict_get d key dflt = (case d key of None \<Rightarrow> dflt | Some v \<Rightarrow> v)"

text \<open>Lines 106 to 111: the text of one list element.\<close>

fun result_text :: "result_item \<Rightarrow> pystr" where
  "result_text (Dict d) =
     ascii ''## '' @ dict_get d ''title'' [] @ newlines @ dict_get d ''content'' []"
| "result_text (NonDict s) = s"

text \<open>
  The loop of lines 105 to 125, with the loop variables \<open>current_tokens\<close> and
  \<open>combined_results\<close> as arguments; \<open>break\<close> returns the list collected so far.
\<close>

fun combine :: "result_item list \<Rightarrow> int \<Rightarrow> int \<Rightarrow> pystr list \<Rightarrow> pystr list" where
  "combine [] max_tokens current_tokens combined_results = combined_results"
| "combine (result # rest) max_tokens current_tokens combined_results =
     (let text = result_text result;
          result_tokens = estimate_tokens text
      in if max_tokens < current_tokens + result_tokens then
           (let remaining_tokens = max_tokens - current_tokens
            in if 100 < remaining_tokens
               then combined_results @ [truncate_text_by_tokens text remaining_tokens]
               else combined_results)
         else combine rest max_tokens (current_tokens + result_tokens)
                (combined_results @ [text]))"

text \<open>\<open>not search_results\<close>.\<close>

fun is_empty :: "search_results \<Rightarrow> bool" where
  "is_empty (Text s) = (s = [])"
| "is_empty (Results rs) = (rs = [])"

fun final_text :: "search_results \<Rightarrow> int \<Rightarrow> pystr" where
  "final_text (Results rs) max_tokens = join newlines (combine rs max_tokens 0 [])"
| "final_text (Text s) max_tokens = s"

text \<open>\<open>truncate_search_results\<close> called with an explicit budget.\<close>

definition truncate_search_results :: "search_results \<Rightarrow> int \<Rightarrow> pystr" where
  "truncate_search_results search_results max_tokens =
     (if is_empty search_results then []
      else truncate_text_by_tokens (final_text search_results max_tokens) max_tokens)"

subsection \<open>Running totals of the loop\<close>

text \<open>
  The estimated tokens of one rendered element, and the sum over the first \<open>k\<close> elements:
  the value of \<open>current_tokens\<close> after \<open>k\<close> whole blocks were appended.
\<close>

definition block_tokens :: "result_item \<Rightarrow> int" where
  "block_tokens r = estimate_tokens (result_text r)"

definition running_total :: "result_item list \<Rightarrow> nat \<Rightarrow> int" where
  "running_total rs k = sum_list (map block_tokens (take k rs))"

subsection \<open>Where the loop stops\<close>

text \<open>
  \<open>stops_at rs b k\<close>: the first \<open>k\<close> blocks keep the running total within the budget
  \<open>b\<close>, and block \<open>k\<close>, if there is one, is the first whose tokens push the total over
  it. \<open>partial_block rs b k\<close> is what the loop appends for that block: its truncation to
  the remaining tokens when more than 100 remain, nothing otherwise.
\<close>

definition stops_at :: "result_item list \<Rightarrow> int \<Rightarrow> nat \<Rightarrow> bool" where
  "stops_at rs b k =
     (k \<le> length rs \<and> (\<forall>j<k. running_total rs (Suc j) \<le> b) \<and>
      (k < length rs \<longrightarrow> b < running_total rs k + block_tokens (rs ! k)))"

definition partial_block :: "result_item list \<Rightarrow> int \<Rightarrow> nat \<Rightarrow> pystr list" where
  "partial_block rs b k =
     (if k < length rs \<and> 100 < b - running_total rs k
      then [truncate_text_by_tokens (result_text (rs ! k)) (b - running_total rs k)]
      else [])"

subsection \<open>\<open>get_max_token_limit\<close> and the default budget\<close>

text \<open>
  The value stored under a key of \<open>conf.yaml\<close> is a Python object. The objects modelled are
  \<open>None\<close> (YAML \<open>null\<close> or an empty value), booleans, integers, strings, lists and
  mappings; floats and other YAML scalars are left out.
\<close>

datatype py_value =
    PyNone
  | PyBool bool
  | PyInt int
  | PyStr pystr
  | PyList "py_value list"
  | PyDict "(py_value \<times> py_value) list"

datatype py_error = TypeError

text \<open>
  \<open>load_yaml_config\<close> is not part of the sources at hand; its outcome is a parameter:
  \<open>None\<close> when the call (or the following \<open>config.get\<close>) raises, \<open>Some config\<close> when it
  returns the dictionary \<open>config\<close>. Python's \<open>int\<close> on a string is the parameter
  \<open>int_of_str\<close>, with \<open>None\<close> for \<open>ValueError\<close>. The warnings logged on lines 22 and 26 do
  not change the result.
\<close>

definition get_max_token_limit ::
    "(pystr \<Rightarrow> int option) \<Rightarrow> (string \<rightharpoonup> py_value) option \<Rightarrow> py_value" where
  "get_max_token_limit int_of_str load =
     (case load of
        None \<Rightarrow> PyInt 100000
      | Some config \<Rightarrow>
          (let max_token_limit =
                 (case config ''MAX_TOKEN_LIMIT'' of None \<Rightarrow> PyInt 100000 | Some v \<Rightarrow> v)
           in case max_token_limit of
                PyStr s \<Rightarrow> (case int_of_str s of Some n \<Rightarrow> PyInt n | None \<Rightarrow> PyInt 100000)
              | v \<Rightarrow> v))"

text \<open>
  \<open>truncate_search_results\<close> with a budget that is any Python object. An \<open>int\<close> runs the
  function as above and a \<open>bool\<close> counts as 0 or 1. For \<open>None\<close>, a string, a list or a
  mapping the first comparison with the budget raises \<open>TypeError\<close>: \<open>current_tokens +
  result_tokens > max_tokens\<close> on line 116 in the first round of the loop, or
  \<open>max_tokens <= 0\<close> on line 58 for a non-empty string; an empty input returns on line 97
  before any comparison.
\<close>

fun truncate_search_results_dyn :: "search_results \<Rightarrow> py_value \<Rightarrow> py_error + pystr" where
  "truncate_search_results_dyn search_results (PyInt n) =
     Inr (truncate_search_results search_results n)"
| "truncate_search_results_dyn search_results (PyBool b) =
     Inr (truncate_search_results search_results (if b then 1 else 0))"
| "truncate_search_results_dyn search_results v =
     (if is_empty search_results then Inr [] else Inl TypeError)"

text \<open>Lines 94 and 95: the call without a budget (\<open>max_tokens=None\<close>).\<close>

definition truncate_search_results_default ::
    "(pystr \<Rightarrow> int option) \<Rightarrow> (string \<rightharpoonup> py_value) option \<Rightarrow> search_results
       \<Rightarrow> py_error + pystr" where
  "truncate_search_results_default int_of_str load search_results =
     truncate_search_results_dyn search_results (get_max_token_limit int_of_str load)"

section \<open>\<open>search.py\<close>\<close>

text \<open>
  \<open>truncated_web_search\<close> renders a list of result dictionaries itself (lines 132 to 135)
  and passes the joined string to \<open>truncate_search_results\<close> with the configured limit.
  Only this branch is modelled: the results are a list of dictionaries with string values
  and the limit is an integer, so nothing raises and the handler of line 144 is not
  reached.
\<close>

definition web_result_text :: "record_dict \<Rightarrow> pystr" where
  "web_result_text elem =
     ascii ''## '' @ dict_get elem ''title'' (ascii ''No Title'') @ newlines
       @ dict_get elem ''content'' (dict_get elem ''snippet'' (ascii ''No content''))"

definition results_text :: "record_dict list \<Rightarrow> pystr" where
  "results_text results = join newlines (map web_result_text results)"

definition truncated_web_search :: "record_dict list \<Rightarrow> int \<Rightarrow> pystr" where
  "truncated_web_search results max_token_limit =
     truncate_search_results (Text (results_text results)) max_token_limit"

section \<open>Example inputs\<close>

text \<open>
  Two records without a title whose blocks have 7 characters each, so one estimated token
  each; joined with the separator they have 16 characters, four estimated tokens.
\<close>

definition two_short_records :: search_results where
  "two_short_records =
     Results [Dict [''content'' \<mapsto> ascii ''ab''], Dict [''content'' \<mapsto> ascii ''cd'']]"

text \<open>Two records with a one-letter title and 50 characters of content: blocks of 56
  characters, 14 estimated tokens each.\<close>

definition record_A :: result_item where
  "record_A = Dict [''title'' \<mapsto> ascii ''A'', ''content'' \<mapsto> replicate 50 120]"

definition record_B :: result_item where
  "record_B = Dict [''title'' \<mapsto> ascii ''B'', ''content'' \<mapsto> replicate 50 121]"

text \<open>A record with a snippet only, and a configuration whose limit is \<open>null\<close>.\<close>

definition snippet_only :: record_dict where
  "snippet_only = [''snippet'' \<mapsto> ascii ''hello'']"

definition null_limit :: "(string \<rightharpoonup> py_value) option" where
  "null_limit = Some [''MAX_TOKEN_LIMIT'' \<mapsto> PyNone]"

text \<open>
  28 characters with one space: at index 16 in \<open>space_at_16\<close> and at index 17 in
  \<open>space_at_17\<close>. With a budget of 5 tokens the character limit is 20 and \<open>0.8 * 20 = 16\<close>.
\<close>

definition space_at_16 :: pystr where
  "space_at_16 = replicate 16 97 @ [32] @ replicate 11 97"

definition space_at_17 :: pystr where
  "space_at_17 = replicate 17 97 @ [32] @ replicate 10 97"

section \<open>Basic facts\<close>

subsection \<open>Estimates and the shape of a truncated text\<close>

lemma length_marker: "length marker = 20"
  by (simp add: marker_def)

lemma estimate_tokens_eq: "estimate_tokens xs = int (length xs) div 4"
  by (simp add: estimate_tokens_def)

lemma estimate_tokens_nonneg: "0 \<le> estimate_tokens xs"
  by (simp add: estimate_tokens_eq)

lemma estimate_tokens_marker: "estimate_tokens marker = 5"
  by (simp add: estimate_tokens_eq length_marker)

lemma estimate_tokens_append_marker:
  "estimate_tokens (xs @ marker) = estimate_tokens xs + 5"
  by (simp add: estimate_tokens_eq length_marker)

lemma estimate_tokens_le: "int (length xs) \<le> 4 * b \<Longrightarrow> estimate_tokens xs \<le> b"
  by (simp add: estimate_tokens_eq)

lemma length_py_slice_to: "length (py_slice_to xs n) \<le> length xs"
  by (auto simp: py_slice_to_def)

lemma length_py_slice_to_limit: "0 \<le> n \<Longrightarrow> int (length (py_slice_to xs n)) \<le> n"
  by (simp add: py_slice_to_def)

lemma truncate_text_by_tokens_nonpos: "b \<le> 0 \<Longrightarrow> truncate_text_by_tokens t b = []"
  by (simp add: truncate_text_by_tokens_def)

lemma truncate_text_by_tokens_fits:
  "0 < b \<Longrightarrow> estimate_tokens t \<le> b \<Longrightarrow> truncate_text_by_tokens t b = t"
  by (simp add: truncate_text_by_tokens_def)

lemma over_budget_longer: "b < estimate_tokens t \<Longrightarrow> b * 4 < int (length t)"
  by (simp add: estimate_tokens_eq)

lemma truncate_text_by_tokens_cut:
  assumes "0 < b" "b < estimate_tokens t"
  shows "truncate_text_by_tokens t b =
           (if gt_times_08 (rfind (py_slice_to t (b * 4)) space) (b * 4)
            then py_slice_to (py_slice_to t (b * 4)) (rfind (py_slice_to t (b * 4)) space)
            else py_slice_to t (b * 4)) @ marker"
proof -
  from assms have "t \<noteq> []" by (auto simp: estimate_tokens_def)
  moreover from assms(2) have "b * 4 < int (length t)" by (rule over_budget_longer)
  ultimately show ?thesis using assms
    by (simp add: truncate_text_by_tokens_def Let_def)
qed

lemma truncate_text_by_tokens_shape:
  assumes "0 < b"
  shows "\<exists>body. estimate_tokens body \<le> b \<and>
           (truncate_text_by_tokens t b = body \<or> truncate_text_by_tokens t b = body @ marker)"
proof (cases "estimate_tokens t \<le> b")
  case True
  with assms show ?thesis by (auto simp: truncate_text_by_tokens_fits)
next
  case False
  let ?p = "py_slice_to t (b * 4)"
  let ?ls = "rfind ?p space"
  let ?body = "if gt_times_08 ?ls (b * 4) then py_slice_to ?p ?ls else ?p"
  have p: "int (length ?p) \<le> 4 * b" using assms length_py_slice_to_limit [of "b * 4" t] by simp
  have "length ?body \<le> length ?p" by (simp add: length_py_slice_to)
  with p have "int (length ?body) \<le> 4 * b" by linarith
  then have "estimate_tokens ?body \<le> b" by (rule estimate_tokens_le)
  moreover have "truncate_text_by_tokens t b = ?body @ marker"
    using assms False by (simp add: truncate_text_by_tokens_cut)
  ultimately show ?thesis by blast
qed

lemma truncate_text_by_tokens_bound:
  assumes "0 < b"
  shows "estimate_tokens (truncate_text_by_tokens t b) \<le> b + estimate_tokens marker"
proof -
  from truncate_text_by_tokens_shape [OF assms, of t] obtain body where
    b: "estimate_tokens body \<le> b" and
    c: "truncate_text_by_tokens t b = body \<or> truncate_text_by_tokens t b = body @ marker"
    by blast
  from c show ?thesis
  proof
    assume "truncate_text_by_tokens t b = body"
    with b show ?thesis by (simp add: estimate_tokens_marker)
  next
    assume "truncate_text_by_tokens t b = body @ marker"
    with b show ?thesis by (simp add: estimate_tokens_marker estimate_tokens_append_marker)
  qed
qed

lemma truncate_search_results_shape:
  assumes "0 < b"
  shows "\<exists>body. estimate_tokens body \<le> b \<and>
           (truncate_search_results r b = body \<or> truncate_search_results r b = body @ marker)"
proof (cases "is_empty r")
  case True
  then have "truncate_search_results r b = []" by (simp add: truncate_search_results_def)
  moreover have "estimate_tokens [] \<le> b" using assms by (simp add: estimate_tokens_def)
  ultimately show ?thesis by blast
next
  case False
  then show ?thesis
    using truncate_text_by_tokens_shape [OF assms] by (simp add: truncate_search_results_def)
qed

subsection \<open>The loop in closed form\<close>

lemma running_total_0: "running_total rs 0 = 0"
  by (simp add: running_total_def)

lemma running_total_Cons_Suc:
  "running_total (r # rs) (Suc k) = block_tokens r + running_total rs k"
  by (simp add: running_total_def)

lemma stops_at_Nil: "stops_at [] b k \<longleftrightarrow> k = 0"
  by (auto simp: stops_at_def)

lemma stops_at_Cons_0: "stops_at (r # rs) b 0 \<longleftrightarrow> b < block_tokens r"
  by (simp add: stops_at_def running_total_0)

lemma stops_at_Cons_Suc:
  "stops_at (r # rs) b (Suc k) \<longleftrightarrow> block_tokens r \<le> b \<and> stops_at rs (b - block_tokens r) k"
proof -
  have "(\<forall>j<Suc k. running_total (r # rs) (Suc j) \<le> b) \<longleftrightarrow>
        block_tokens r \<le> b \<and> (\<forall>j<k. running_total rs (Suc j) \<le> b - block_tokens r)"
  proof -
    have "(\<forall>j<Suc k. running_total (r # rs) (Suc j) \<le> b) \<longleftrightarrow>
          running_total (r # rs) (Suc 0) \<le> b \<and> (\<forall>j<k. running_total (r # rs) (Suc (Suc j)) \<le> b)"
      by (simp add: All_less_Suc2)
    also have "\<dots> \<longleftrightarrow> block_tokens r \<le> b \<and> (\<forall>j<k. block_tokens r + running_total rs (Suc j) \<le> b)"
      by (simp only: running_total_Cons_Suc running_total_0) simp
    also have "\<dots> \<longleftrightarrow> block_tokens r \<le> b \<and> (\<forall>j<k. running_total rs (Suc j) \<le> b - block_tokens r)"
      by (simp add: algebra_simps)
    finally show ?thesis .
  qed
  then show ?thesis
    by (auto simp add: stops_at_def running_total_Cons_Suc algebra_simps)
qed

lemma stops_at_exists: "\<exists>k. stops_at rs b k"
proof (induction rs arbitrary: b)
  case Nil
  show ?case by (simp add: stops_at_Nil)
next
  case (Cons r rs)
  show ?case
  proof (cases "b < block_tokens r")
    case True
    then have "stops_at (r # rs) b 0" by (simp add: stops_at_Cons_0)
    then show ?thesis ..
  next
    case False
    from Cons.IH obtain k where "stops_at rs (b - block_tokens r) k" ..
    with False have "stops_at (r # rs) b (Suc k)" by (simp add: stops_at_Cons_Suc)
    then show ?thesis ..
  qed
qed

lemma stops_at_unique: "stops_at rs b k \<Longrightarrow> stops_at rs b k' \<Longrightarrow> k = k'"
proof (induction rs arbitrary: b k k')
  case Nil
  then show ?case by (simp add: stops_at_Nil)
next
  case (Cons r rs)
  show ?case
  proof (cases k)
    case 0
    with Cons.prems show ?thesis
      by (cases k') (auto simp: stops_at_Cons_0 stops_at_Cons_Suc)
  next
    case (Suc m)
    with Cons.prems Cons.IH show ?thesis
      by (cases k') (auto simp: stops_at_Cons_0 stops_at_Cons_Suc)
  qed
qed

lemma partial_block_Cons_0:
  "partial_block (r # rs) b 0 =
     (if 100 < b then [truncate_text_by_tokens (result_text r) b] else [])"
  by (simp add: partial_block_def running_total_0)

lemma partial_block_Cons_Suc:
  "partial_block (r # rs) b (Suc k) = partial_block rs (b - block_tokens r) k"
  by (simp add: partial_block_def running_total_Cons_Suc algebra_simps)

lemma combine_closed_form:
  "stops_at rs (b - cur) k \<Longrightarrow>
   combine rs b cur acc = acc @ map result_text (take k rs) @ partial_block rs (b - cur) k"
proof (induction rs arbitrary: k cur acc)
  case Nil
  then show ?case by (simp add: stops_at_Nil partial_block_def)
next
  case (Cons r rs)
  show ?case
  proof (cases k)
    case 0
    with Cons.prems have "b < cur + block_tokens r"
      by (simp add: stops_at_Cons_0)
    with 0 show ?thesis
      by (simp add: partial_block_Cons_0 block_tokens_def Let_def)
  next
    case (Suc m)
    with Cons.prems have fits: "cur + block_tokens r \<le> b"
      and rest: "stops_at rs (b - (cur + block_tokens r)) m"
      by (simp_all add: stops_at_Cons_Suc algebra_simps)
    from Cons.IH [OF rest]
    have "combine rs b (cur + block_tokens r) (acc @ [result_text r]) =
            (acc @ [result_text r]) @ map result_text (take m rs)
              @ partial_block rs (b - (cur + block_tokens r)) m" .
    with fits Suc show ?thesis
      by (simp add: partial_block_Cons_Suc block_tokens_def Let_def algebra_simps)
  qed
qed

lemma stops_at_prefix:
  assumes "stops_at rs b k" "k < length rs"
  shows "stops_at (take (Suc k) rs @ later) b k"
proof -
  have t: "take j (take (Suc k) rs @ later) = take j rs" if "j \<le> Suc k" for j
    using that assms(2) by (simp add: min_def)
  have n: "(take (Suc k) rs @ later) ! k = rs ! k"
    using assms(2) by (simp add: nth_append)
  from assms show ?thesis
    by (simp add: stops_at_def running_total_def t n)
qed

lemma partial_block_prefix:
  assumes "k < length rs"
  shows "partial_block (take (Suc k) rs @ later) b k = partial_block rs b k"
proof -
  have n: "(take (Suc k) rs @ later) ! k = rs ! k"
    using assms by (simp add: nth_append)
  have t: "take k (take (Suc k) rs @ later) = take k rs"
    using assms by (simp add: min_def)
  show ?thesis using assms
    by (simp add: partial_block_def running_total_def n t)
qed

lemma combine_prefix:
  assumes "stops_at rs b k" "k < length rs"
  shows "combine (take (Suc k) rs @ later) b 0 [] = combine rs b 0 []"
proof -
  have "take k (take (Suc k) rs @ later) = take k rs"
    using assms(2) by (simp add: min_def)
  then show ?thesis
    using combine_closed_form [of rs b 0 k "[]"]
      combine_closed_form [of "take (Suc k) rs @ later" b 0 k "[]"]
      stops_at_prefix [OF assms] partial_block_prefix [OF assms(2)] assms(1)
    by simp
qed

subsection \<open>Where the marker ends up\<close>

lemma marker_nonempty: "marker \<noteq> []"
  by (simp add: marker_def)

lemma endswith_append: "endswith (xs @ m) m"
  by (simp add: endswith_def)

lemma endswith_append_left: "endswith y m \<Longrightarrow> endswith (xs @ y) m"
  by (auto simp: endswith_def)

lemma not_endswith_Nil: "m \<noteq> [] \<Longrightarrow> \<not> endswith [] m"
  by (simp add: endswith_def)

lemma join_snoc: "join sep (xs @ [y]) = (if xs = [] then y else join sep xs @ sep @ y)"
  by (induction sep xs rule: join.induct) auto

lemma join_Cons_nonempty: "x \<noteq> [] \<Longrightarrow> join sep (x # xs) \<noteq> []"
  by (cases xs) auto

lemma truncate_text_by_tokens_marked:
  assumes "0 < b" "b < estimate_tokens t"
  shows "\<exists>body. truncate_text_by_tokens t b = body @ marker"
  using truncate_text_by_tokens_cut [OF assms] by blast

lemma truncate_text_by_tokens_empty_iff:
  assumes "0 < b"
  shows "truncate_text_by_tokens t b = [] \<longleftrightarrow> t = []"
proof (cases "estimate_tokens t \<le> b")
  case True
  with assms show ?thesis by (simp add: truncate_text_by_tokens_fits)
next
  case False
  then have "t \<noteq> []" using assms by (auto simp: estimate_tokens_def)
  moreover from False assms obtain body where "truncate_text_by_tokens t b = body @ marker"
    using truncate_text_by_tokens_marked [of b t] by auto
  ultimately show ?thesis by (simp add: marker_nonempty)
qed

lemma truncate_text_by_tokens_endswith:
  assumes "0 < b"
  shows "endswith (truncate_text_by_tokens t b) marker \<longleftrightarrow>
           b < estimate_tokens t \<or> endswith t marker"
proof (cases "estimate_tokens t \<le> b")
  case True
  with assms show ?thesis by (simp add: truncate_text_by_tokens_fits)
next
  case False
  with assms obtain body where "truncate_text_by_tokens t b = body @ marker"
    using truncate_text_by_tokens_marked [of b t] by auto
  with False show ?thesis by (simp add: endswith_append)
qed

lemma partial_block_marked:
  assumes "stops_at rs b k" "partial_block rs b k \<noteq> []"
  shows "\<exists>body. partial_block rs b k = [body @ marker]"
proof -
  from assms(2) have k: "k < length rs" and r: "100 < b - running_total rs k"
    by (auto simp: partial_block_def split: if_splits)
  from assms(1) k have "b - running_total rs k < estimate_tokens (result_text (rs ! k))"
    by (simp add: stops_at_def block_tokens_def)
  with r obtain body where
    "truncate_text_by_tokens (result_text (rs ! k)) (b - running_total rs k) = body @ marker"
    using truncate_text_by_tokens_marked [of "b - running_total rs k" "result_text (rs ! k)"]
    by auto
  with k r show ?thesis by (simp add: partial_block_def)
qed

lemma final_text_Results:
  "stops_at rs b k \<Longrightarrow>
   final_text (Results rs) b = join newlines (map result_text (take k rs) @ partial_block rs b k)"
  using combine_closed_form [of rs b 0 k "[]"] by simp

declare final_text.simps(1) [simp del]

lemma final_text_endswith:
  assumes "stops_at rs b k"
  shows "endswith (final_text (Results rs) b) marker \<longleftrightarrow>
           partial_block rs b k \<noteq> [] \<or> endswith (join newlines (map result_text (take k rs))) marker"
proof (cases "partial_block rs b k = []")
  case True
  then show ?thesis by (simp add: final_text_Results [OF assms])
next
  case False
  with assms obtain body where "partial_block rs b k = [body @ marker]"
    using partial_block_marked by blast
  then have "final_text (Results rs) b =
               join newlines (map result_text (take k rs) @ [body @ marker])"
    by (simp add: final_text_Results [OF assms])
  then have "endswith (final_text (Results rs) b) marker"
    by (simp add: join_snoc endswith_append endswith_append_left)
  with False show ?thesis by simp
qed

lemma truncate_search_results_Results:
  "truncate_search_results (Results rs) b = truncate_text_by_tokens (final_text (Results rs) b) b"
  by (cases rs)
    (simp_all add: truncate_search_results_def truncate_text_by_tokens_def final_text.simps)

lemma truncate_search_results_Text:
  "truncate_search_results (Text s) b = truncate_text_by_tokens s b"
  by (simp add: truncate_search_results_def truncate_text_by_tokens_def)

lemma result_text_Dict_nonempty: "result_text (Dict d) \<noteq> []"
  by (simp add: ascii_def)

lemma final_text_first_fits:
  assumes "block_tokens r \<le> b" "result_text r \<noteq> []"
  shows "final_text (Results (r # rs)) b \<noteq> []"
proof -
  obtain k where k: "stops_at (r # rs) b k"
    using stops_at_exists by blast
  with assms(1) obtain m where "k = Suc m"
    by (cases k) (auto simp: stops_at_Cons_0)
  with assms(2) show ?thesis
    by (simp add: final_text_Results [OF k] join_Cons_nonempty)
qed

lemma final_text_first_over:
  assumes "b < block_tokens r"
  shows "final_text (Results (r # rs)) b =
           (if 100 < b then truncate_text_by_tokens (result_text r) b else [])"
proof -
  from assms have "stops_at (r # rs) b 0" by (simp add: stops_at_Cons_0)
  then show ?thesis
    by (simp add: final_text_Results partial_block_Cons_0)
qed

subsection \<open>The example records at budget 20\<close>

lemma stops_at_A_B: "stops_at [record_A, record_B] 20 1"
proof -
  have "block_tokens record_A = 14" "block_tokens record_B = 14"
    by code_simp+
  then show ?thesis
    by (simp add: stops_at_def running_total_def)
qed

lemma partial_block_A_B: "partial_block [record_A, record_B] 20 1 = []"
proof -
  have "block_tokens record_A = 14"
    by code_simp
  then show ?thesis
    by (simp add: partial_block_def running_total_def)
qed

subsection \<open>The comparison in double precision and the exact one\<close>

lemma bit_length_pos: "0 < n \<Longrightarrow> bit_length n = Suc (bit_length (n div 2))"
  by (subst bit_length.simps) simp

lemma bit_length_0: "bit_length 0 = 0"
  by (subst bit_length.simps) simp

lemma bit_length_upper: "0 \<le> n \<Longrightarrow> n < 2 ^ bit_length n"
proof (induction n rule: bit_length.induct)
  case (1 n)
  show ?case
  proof (cases "n = 0")
    case True
    then show ?thesis by (simp add: bit_length_0)
  next
    case False
    with 1 have pos: "0 < n" by simp
    with 1 False have "n div 2 < 2 ^ bit_length (n div 2)" by simp
    then have "n < 2 * 2 ^ bit_length (n div 2)" by linarith
    with pos show ?thesis by (simp add: bit_length_pos)
  qed
qed

lemma bit_length_lower: "0 < n \<Longrightarrow> 2 ^ (bit_length n - 1) \<le> n"
proof (induction n rule: bit_length.induct)
  case (1 n)
  then have pos: "0 < n" by simp
  show ?case
  proof (cases "n div 2 = 0")
    case True
    with pos show ?thesis by (simp add: bit_length_pos bit_length_0)
  next
    case False
    with pos have h: "0 < n div 2" by linarith
    with 1 pos have "2 ^ (bit_length (n div 2) - 1) \<le> n div 2" by simp
    then have "2 * 2 ^ (bit_length (n div 2) - 1) \<le> n" by linarith
    moreover have "0 < bit_length (n div 2)" using h by (simp add: bit_length_pos)
    ultimately have "2 ^ bit_length (n div 2) \<le> n"
      by (cases "bit_length (n div 2)") simp_all
    with pos show ?thesis by (simp add: bit_length_pos)
  qed
qed

lemma bit_length_le: "0 \<le> n \<Longrightarrow> n < 2 ^ w \<Longrightarrow> bit_length n \<le> w"
proof (rule ccontr)
  assume n: "0 \<le> n" "n < 2 ^ w" and c: "\<not> bit_length n \<le> w"
  then have w: "w \<le> bit_length n - 1" by simp
  from c have "bit_length n \<noteq> 0" by simp
  then have "n \<noteq> 0" using bit_length_0 by auto
  with n have "0 < n" by simp
  then have "2 ^ (bit_length n - 1) \<le> n" by (rule bit_length_lower)
  moreover have "(2::int) ^ w \<le> 2 ^ (bit_length n - 1)" using w by (simp add: power_increasing)
  ultimately show False using n by linarith
qed

lemma round53_small: "0 \<le> n \<Longrightarrow> n < 2 ^ 53 \<Longrightarrow> round53 n = n"
  using bit_length_le [of n 53] by (simp add: round53_def Let_def)

lemma round53_nonneg: "0 \<le> n \<Longrightarrow> 0 \<le> round53 n"
proof -
  assume n: "0 \<le> n"
  have "0 \<le> n div 2 ^ s" for s
    using n by (simp add: pos_imp_zdiv_nonneg_iff)
  then have "0 \<le> (if P then n div 2 ^ s + 1 else n div 2 ^ s) * 2 ^ s" for P s
    by (simp add: add_nonneg_nonneg)
  then show ?thesis
    using n by (simp add: round53_def Let_def sgn_if)
qed

text \<open>The rounded value of a number of more than 53 bits.\<close>

lemma round53_large:
  assumes "0 < n" "53 < bit_length n"
  defines "s \<equiv> bit_length n - 53"
  shows "(n div 2 ^ s) * 2 ^ s \<le> round53 n"
    and "2 * round53 n \<le> 2 * n + 2 ^ s"
    and "2 * n \<le> 2 * round53 n + 2 ^ s"
    and "2 ^ (s + 52) \<le> n"
proof -
  let ?q = "n div 2 ^ s" and ?r = "n mod 2 ^ s"
  have s: "0 < s" using assms by simp
  then have h: "2 * (2::int) ^ (s - 1) = 2 ^ s"
    by (cases s) simp_all
  have n: "n = ?q * 2 ^ s + ?r" by (simp add: div_mult_mod_eq)
  have r: "0 \<le> ?r" "?r < 2 ^ s" by simp_all
  have R: "round53 n = (if 2 ^ (s - 1) < ?r \<or> (?r = 2 ^ (s - 1) \<and> odd ?q) then ?q + 1 else ?q) * 2 ^ s"
    using assms by (simp add: round53_def Let_def)
  show "?q * 2 ^ s \<le> round53 n"
    by (simp add: R)
  show "2 * round53 n \<le> 2 * n + 2 ^ s"
  proof (cases "2 ^ (s - 1) < ?r \<or> (?r = 2 ^ (s - 1) \<and> odd ?q)")
    case True
    then have "2 ^ s \<le> 2 * ?r" using h by linarith
    moreover from True have "round53 n = ?q * 2 ^ s + 2 ^ s" by (simp add: R algebra_simps)
    ultimately show ?thesis using n by linarith
  next
    case False
    then have "round53 n = ?q * 2 ^ s" by (simp add: R)
    then show ?thesis using n r by linarith
  qed
  show "2 * n \<le> 2 * round53 n + 2 ^ s"
  proof (cases "2 ^ (s - 1) < ?r \<or> (?r = 2 ^ (s - 1) \<and> odd ?q)")
    case True
    then have "round53 n = ?q * 2 ^ s + 2 ^ s" by (simp add: R algebra_simps)
    then show ?thesis using n r by linarith
  next
    case False
    then have "2 * ?r \<le> 2 ^ s" using h by linarith
    moreover from False have "round53 n = ?q * 2 ^ s" by (simp add: R)
    ultimately show ?thesis using n by linarith
  qed
  have "s + 52 = bit_length n - 1" using assms by simp
  then show "2 ^ (s + 52) \<le> n" using bit_length_lower [OF assms(1)] by simp
qed

lemma multiple_le_round_down:
  fixes n :: int
  assumes "m * 2 ^ s \<le> n"
  shows "m * 2 ^ s \<le> (n div 2 ^ s) * 2 ^ s"
proof -
  have "(m * 2 ^ s) div 2 ^ s \<le> n div 2 ^ s"
    using assms by (rule zdiv_mono1) simp
  then have "m \<le> n div 2 ^ s" by simp
  then show ?thesis by (simp add: mult_right_mono)
qed

lemma times_08_bounds:
  assumes "0 < c" "c < 2 ^ 50"
  shows "10 * times_08 c < c * 2 ^ 55 + 7 * c"
    and "c * 2 ^ 55 - 5 * c < 10 * times_08 c"
    and "j * 2 ^ 54 \<le> c * literal_08 \<Longrightarrow> j * 2 ^ 54 \<le> times_08 c"
proof -
  define N where "N = c * literal_08"
  have rc: "round53 c = c"
    using assms by (intro round53_small) simp_all
  have R: "times_08 c = round53 N"
    by (simp add: times_08_def rc N_def)
  have N5: "5 * N = c * 2 ^ 54 + c"
    by (simp add: N_def literal_08_def)
  have Npos: "0 < N"
    using assms by (simp add: N_def literal_08_def)
  have Nlt: "N < c * 2 ^ 52"
    using assms by (simp add: N_def literal_08_def)
  have "10 * round53 N < c * 2 ^ 55 + 7 * c \<and> c * 2 ^ 55 - 5 * c < 10 * round53 N \<and>
        (j * 2 ^ 54 \<le> N \<longrightarrow> j * 2 ^ 54 \<le> round53 N)"
  proof (cases "bit_length N \<le> 53")
    case True
    then have "round53 N = N" using Npos by (simp add: round53_def Let_def)
    with N5 assms show ?thesis by simp
  next
    case False
    define s where "s = bit_length N - 53"
    from False have big: "53 < bit_length N" by simp
    note r = round53_large [OF Npos big, folded s_def]
    have "(2::int) ^ (s + 52) = 2 ^ s * 2 ^ 52" by (simp add: power_add)
    with r(4) Nlt have D: "(2::int) ^ s < c" by simp
    with assms(2) have "(2::int) ^ s < 2 ^ 50" by linarith
    then have s50: "s < 50" by (rule power_less_imp_less_exp [rotated]) simp
    have a: "10 * round53 N < c * 2 ^ 55 + 7 * c"
      using r(2) N5 D assms(1) by simp
    have b: "c * 2 ^ 55 - 5 * c < 10 * round53 N"
      using r(3) N5 D assms(1) by simp
    have c: "j * 2 ^ 54 \<le> round53 N" if "j * 2 ^ 54 \<le> N"
    proof -
      have "(2::int) ^ 54 = 2 ^ (54 - s) * 2 ^ s"
        using s50 by (simp add: power_add [symmetric])
      then have e: "j * 2 ^ 54 = (j * 2 ^ (54 - s)) * 2 ^ s"
        by (simp only: mult.assoc)
      from that have "(j * 2 ^ (54 - s)) * 2 ^ s \<le> N"
        unfolding e .
      then have "(j * 2 ^ (54 - s)) * 2 ^ s \<le> (N div 2 ^ s) * 2 ^ s"
        by (rule multiple_le_round_down)
      with r(1) have "(j * 2 ^ (54 - s)) * 2 ^ s \<le> round53 N"
        by linarith
      then show ?thesis
        unfolding e .
    qed
    from a b c show ?thesis by blast
  qed
  then show "10 * times_08 c < c * 2 ^ 55 + 7 * c"
    and "c * 2 ^ 55 - 5 * c < 10 * times_08 c"
    and "j * 2 ^ 54 \<le> c * literal_08 \<Longrightarrow> j * 2 ^ 54 \<le> times_08 c"
    by (simp_all add: R N_def)
qed

lemma times_08_0: "times_08 0 = 0"
  by (simp add: times_08_def round53_small)

lemma gt_times_08_exact:
  assumes "0 \<le> c" "c < 2 ^ 50"
  shows "gt_times_08 k c \<longleftrightarrow> 4 * c < 5 * k"
proof (cases "c = 0")
  case True
  then show ?thesis by (simp add: gt_times_08_def times_08_0 zero_less_mult_iff)
next
  case False
  with assms have pos: "0 < c" by simp
  note b = times_08_bounds [OF pos assms(2)]
  show ?thesis
  proof
    assume "gt_times_08 k c"
    then have g: "times_08 c < k * 2 ^ 52" by (simp add: gt_times_08_def)
    show "4 * c < 5 * k"
    proof (rule ccontr)
      assume "\<not> 4 * c < 5 * k"
      then consider "5 * k = 4 * c" | "5 * k \<le> 4 * c - 1" by linarith
      then show False
      proof cases
        case 1
        then have "\<exists>j. c = 5 * j \<and> k = 4 * j" by presburger
        then obtain j where j: "c = 5 * j" "k = 4 * j" by blast
        have "j * 2 ^ 54 \<le> c * literal_08" using pos j by (simp add: literal_08_def)
        then have "j * 2 ^ 54 \<le> times_08 c" by (rule b(3))
        with g j show False by simp
      next
        case 2
        with b(2) g assms show False by simp
      qed
    qed
  next
    assume "4 * c < 5 * k"
    then have "4 * c + 1 \<le> 5 * k" by simp
    with b(1) assms have "times_08 c < k * 2 ^ 52" by simp
    then show "gt_times_08 k c" by (simp add: gt_times_08_def)
  qed
qed

lemma times_08_nonneg: "0 \<le> c \<Longrightarrow> 0 \<le> times_08 c"
  by (simp add: times_08_def literal_08_def round53_nonneg)

lemma gt_times_08_pos: "0 \<le> c \<Longrightarrow> gt_times_08 k c \<Longrightarrow> 0 < k"
  using times_08_nonneg [of c] by (simp add: gt_times_08_def zero_less_mult_iff)

subsection \<open>The cut, and cutting twice\<close>

lemma rfind_lower: "- 1 \<le> rfind xs c"
  by (induction xs) (auto simp: Let_def)

lemma rfind_upper: "rfind xs c < int (length xs)"
  by (induction xs) (auto simp: Let_def)

lemma rfind_nth: "0 \<le> rfind xs c \<Longrightarrow> xs ! nat (rfind xs c) = c"
proof (induction xs)
  case Nil
  then show ?case by simp
next
  case (Cons x xs)
  show ?case
  proof (cases "0 \<le> rfind xs c")
    case True
    with Cons.IH show ?thesis by (simp add: Let_def nat_add_distrib)
  next
    case False
    with Cons.prems show ?thesis by (simp add: Let_def split: if_splits)
  qed
qed

lemma py_slice_to_nonneg: "0 \<le> n \<Longrightarrow> py_slice_to xs n = take (nat n) xs"
  by (simp add: py_slice_to_def)

lemma truncate_text_by_tokens_cut_take:
  assumes "0 < b" "b < estimate_tokens t"
  shows "truncate_text_by_tokens t b =
           (if gt_times_08 (last_space t b) (b * 4)
            then take (nat (last_space t b)) t
            else take (nat (b * 4)) t) @ marker"
proof -
  let ?p = "take (nat (b * 4)) t"
  have ls: "rfind (py_slice_to t (b * 4)) space = last_space t b"
    by (simp add: last_space_def)
  have p: "py_slice_to t (b * 4) = ?p"
    using assms(1) by (simp add: py_slice_to_nonneg)
  have "truncate_text_by_tokens t b =
          (if gt_times_08 (last_space t b) (b * 4)
           then py_slice_to (py_slice_to t (b * 4)) (last_space t b)
           else py_slice_to t (b * 4)) @ marker"
    using truncate_text_by_tokens_cut [OF assms] by (simp only: ls)
  then have cut: "truncate_text_by_tokens t b =
          (if gt_times_08 (last_space t b) (b * 4)
           then py_slice_to ?p (last_space t b) else ?p) @ marker"
    by (simp only: p)
  show ?thesis
  proof (cases "gt_times_08 (last_space t b) (b * 4)")
    case False
    with cut show ?thesis by simp
  next
    case True
    with assms(1) have pos: "0 < last_space t b"
      by (intro gt_times_08_pos [of "b * 4"]) simp_all
    have "last_space t b < int (length ?p)"
      using rfind_upper [of "py_slice_to t (b * 4)" space] unfolding ls unfolding p .
    then have "nat (last_space t b) \<le> nat (b * 4)" by simp
    then have "take (nat (last_space t b)) ?p = take (nat (last_space t b)) t"
      by (simp add: min_def)
    with pos have "py_slice_to ?p (last_space t b) = take (nat (last_space t b)) t"
      by (simp add: py_slice_to_nonneg)
    with cut True show ?thesis by simp
  qed
qed

lemma marker_first_not_space: "marker ! 0 \<noteq> space"
  by (simp add: marker_def space_def)

lemma length_take_le: "n \<le> length xs \<Longrightarrow> length (take n xs) = n"
  by simp

lemma last_space_take:
  "0 < b \<Longrightarrow> last_space t b = rfind (take (nat (b * 4)) t) space"
  by (simp add: last_space_def py_slice_to_nonneg)

lemma hard_cut_stable:
  assumes "0 < b" "b < estimate_tokens t" "\<not> gt_times_08 (last_space t b) (b * 4)"
  shows "truncate_text_by_tokens (truncate_text_by_tokens t b) b = truncate_text_by_tokens t b"
proof -
  let ?n = "nat (b * 4)"
  let ?p = "take ?n t"
  let ?res = "?p @ marker"
  have res: "truncate_text_by_tokens t b = ?res"
    using assms by (simp add: truncate_text_by_tokens_cut_take)
  have "b * 4 < int (length t)"
    using assms(2) by (rule over_budget_longer)
  then have len: "length ?p = ?n" by simp
  then have tk: "take ?n ?res = ?p" by simp
  have "estimate_tokens ?res = estimate_tokens ?p + 5"
    by (rule estimate_tokens_append_marker)
  moreover have "estimate_tokens ?p = b"
    using assms(1) len by (simp add: estimate_tokens_eq)
  ultimately have over: "b < estimate_tokens ?res" by simp
  have "last_space ?res b = rfind (take ?n ?res) space"
    using assms(1) by (rule last_space_take)
  also have "\<dots> = rfind ?p space"
    by (simp only: tk)
  also have "\<dots> = last_space t b"
    using assms(1) by (rule last_space_take [symmetric])
  finally have ls: "last_space ?res b = last_space t b" .
  have "truncate_text_by_tokens ?res b = ?res"
    using assms(3) tk by (simp add: truncate_text_by_tokens_cut_take [OF assms(1) over] ls)
  with res show ?thesis by simp
qed

lemma backed_off_result:
  assumes "0 < b" "b < estimate_tokens t" "gt_times_08 (last_space t b) (b * 4)"
  shows "truncate_text_by_tokens t b = take (nat (last_space t b)) t @ marker"
    and "0 < last_space t b" and "last_space t b < b * 4"
    and "length (take (nat (last_space t b)) t) = nat (last_space t b)"
proof -
  show "truncate_text_by_tokens t b = take (nat (last_space t b)) t @ marker"
    using assms by (simp add: truncate_text_by_tokens_cut_take)
  show pos: "0 < last_space t b"
    using assms(1,3) by (intro gt_times_08_pos [of "b * 4"]) simp_all
  have "last_space t b < int (length (take (nat (b * 4)) t))"
    using rfind_upper [of "take (nat (b * 4)) t" space] assms(1) by (simp add: last_space_take)
  then show lt: "last_space t b < b * 4" using assms(1) by simp
  have "b * 4 < int (length t)"
    using assms(2) by (rule over_budget_longer)
  with lt show "length (take (nat (last_space t b)) t) = nat (last_space t b)" by simp
qed

lemma soft_cut_stable:
  assumes "0 < b" "b < estimate_tokens t" "gt_times_08 (last_space t b) (b * 4)"
    and "last_space t b + 16 < b * 4"
  shows "truncate_text_by_tokens (truncate_text_by_tokens t b) b = truncate_text_by_tokens t b"
proof -
  note r = backed_off_result [OF assms(1-3)]
  have "int (length (take (nat (last_space t b)) t @ marker)) = last_space t b + 20"
    using r(2,4) by (simp add: length_marker)
  with assms(4) have "estimate_tokens (take (nat (last_space t b)) t @ marker) \<le> b"
    by (simp only: estimate_tokens_eq)
  with assms(1) r(1) show ?thesis
    by (simp add: truncate_text_by_tokens_fits)
qed

lemma soft_cut_unstable:
  assumes "0 < b" "b < estimate_tokens t" "gt_times_08 (last_space t b) (b * 4)"
    and "b * 4 \<le> last_space t b + 16"
  shows "truncate_text_by_tokens (truncate_text_by_tokens t b) b \<noteq> truncate_text_by_tokens t b"
proof
  let ?n = "nat (b * 4)"
  let ?l = "nat (last_space t b)"
  let ?q = "take ?l t"
  let ?res = "?q @ marker"
  let ?p = "take ?n ?res"
  note r = backed_off_result [OF assms(1-3)]
  have lenres: "int (length ?res) = last_space t b + 20"
    using r(2,4) by (simp add: length_marker)
  with assms(4) have over: "b < estimate_tokens ?res"
    by (simp only: estimate_tokens_eq)
  have ln: "?l < ?n" using r(2,3) by simp
  have "int ?n < int (length ?res)"
    using assms(1,4) by (simp only: lenres)
  then have "?n \<le> length ?res"
    by (simp only: of_nat_less_iff less_imp_le)
  then have lenp: "length ?p = ?n"
    by (rule length_take_le)
  have at_l: "?p ! ?l \<noteq> space"
  proof -
    have "?p ! ?l = ?res ! ?l" using ln by (rule nth_take)
    also have "\<dots> = marker ! 0" using r(4) by (simp add: nth_append)
    finally show ?thesis by (simp add: marker_first_not_space)
  qed
  assume "truncate_text_by_tokens (truncate_text_by_tokens t b) b = truncate_text_by_tokens t b"
  then have eq: "truncate_text_by_tokens ?res b = ?res" by (simp add: r(1))
  have ls2: "last_space ?res b = rfind ?p space"
    using assms(1) by (rule last_space_take)
  show False
  proof (cases "gt_times_08 (last_space ?res b) (b * 4)")
    case False
    with eq have "?p @ marker = ?q @ marker"
      by (simp add: truncate_text_by_tokens_cut_take [OF assms(1) over])
    then have "length ?p = length ?q" by simp
    with lenp r(4) ln show False by linarith
  next
    case True
    note r2 = backed_off_result [OF assms(1) over True]
    from eq r2(1) have "take (nat (last_space ?res b)) ?res = ?q" by simp
    then have "length (take (nat (last_space ?res b)) ?res) = length ?q" by simp
    with r2(4) r(4) have "nat (last_space ?res b) = ?l" by linarith
    with r2(2) r(2) have same: "last_space ?res b = last_space t b" by linarith
    have "0 \<le> rfind ?p space" using r2(2) ls2 by simp
    then have "?p ! nat (rfind ?p space) = space" by (rule rfind_nth)
    with ls2 same at_l show False by simp
  qed
qed

subsection \<open>Rendering and configuration\<close>

lemma result_text_present:
  "d ''title'' = Some title \<Longrightarrow> d ''content'' = Some content \<Longrightarrow>
   result_text (Dict d) = ascii ''## '' @ title @ newlines @ content"
  by (simp add: dict_get_def)

lemma result_text_missing:
  "d ''title'' = None \<Longrightarrow> d ''content'' = None \<Longrightarrow>
   result_text (Dict d) = ascii ''## '' @ newlines"
  by (simp add: dict_get_def)

lemma web_result_text_missing:
  "elem ''title'' = None \<Longrightarrow> elem ''content'' = None \<Longrightarrow>
   web_result_text elem =
     ascii ''## No Title'' @ newlines
       @ (case elem ''snippet'' of None \<Rightarrow> ascii ''No content'' | Some s \<Rightarrow> s)"
  by (simp add: web_result_text_def dict_get_def ascii_def split: option.split)

lemma get_max_token_limit_load_fails:
  "get_max_token_limit int_of_str None = PyInt 100000"
  by (simp add: get_max_token_limit_def)

lemma get_max_token_limit_missing:
  "config ''MAX_TOKEN_LIMIT'' = None \<Longrightarrow>
   get_max_token_limit int_of_str (Some config) = PyInt 100000"
  by (simp add: get_max_token_limit_def)

lemma get_max_token_limit_int:
  "config ''MAX_TOKEN_LIMIT'' = Some (PyInt n) \<Longrightarrow>
   get_max_token_limit int_of_str (Some config) = PyInt n"
  by (simp add: get_max_token_limit_def)

lemma get_max_token_limit_str:
  "config ''MAX_TOKEN_LIMIT'' = Some (PyStr s) \<Longrightarrow>
   get_max_token_limit int_of_str (Some config) =
     (case int_of_str s of Some n \<Rightarrow> PyInt n | None \<Rightarrow> PyInt 100000)"
  by (simp add: get_max_token_limit_def)

lemma get_max_token_limit_other:
  "config ''MAX_TOKEN_LIMIT'' = Some v \<Longrightarrow> (\<And>s. v \<noteq> PyStr s) \<Longrightarrow>
   get_max_token_limit int_of_str (Some config) = v"
  by (cases v) (auto simp: get_max_token_limit_def)

lemma truncate_search_results_default_int:
  "get_max_token_limit int_of_str load = PyInt n \<Longrightarrow>
   truncate_search_results_default int_of_str load r = Inr (truncate_search_results r n)"
  by (simp add: truncate_search_results_default_def)

section \<open>The claims\<close>

text \<open>
  C1: for every input and every budget that holds at least one character (\<open>0 < b\<close>), the
  estimated token count of the string returned by \<open>truncate_text_by_tokens\<close> and by
  \<open>truncate_search_results\<close> is at most the budget plus the estimate of the appended marker
  (5 tokens); the part before the marker, or the whole result when no marker was appended,
  is within the budget. \<open>truncate_search_results\<close> returns the result of the final
  \<open>truncate_text_by_tokens\<close> pass over the joined text, so the bound holds whatever the
  loop collected.
\<close>

theorem C1_budget_bound:
  assumes "0 < b"
  shows "estimate_tokens (truncate_text_by_tokens t b) \<le> b + estimate_tokens marker \<and>
         estimate_tokens (truncate_search_results r b) \<le> b + estimate_tokens marker \<and>
         (\<exists>body. estimate_tokens body \<le> b \<and>
            (truncate_text_by_tokens t b = body \<or> truncate_text_by_tokens t b = body @ marker)) \<and>
         (\<exists>body. estimate_tokens body \<le> b \<and>
            (truncate_search_results r b = body \<or> truncate_search_results r b = body @ marker)) \<and>
         truncate_search_results r b =
           (if is_empty r then [] else truncate_text_by_tokens (final_text r b) b)"
proof -
  have "estimate_tokens (truncate_search_results r b) \<le> b + estimate_tokens marker"
  proof (cases "is_empty r")
    case True
    then show ?thesis using assms
      by (simp add: truncate_search_results_def estimate_tokens_marker) (simp add: estimate_tokens_def)
  next
    case False
    then show ?thesis
      using truncate_text_by_tokens_bound [OF assms] by (simp add: truncate_search_results_def)
  qed
  then show ?thesis
    using truncate_text_by_tokens_bound [OF assms, of t]
      truncate_text_by_tokens_shape [OF assms, of t]
      truncate_search_results_shape [OF assms, of r]
    by (simp add: truncate_search_results_def)
qed

text \<open>
  At budget 2 both records of \<open>two_short_records\<close> pass the loop (running totals 1 and 2),
  the joined text has 4 estimated tokens, and the final pass brings the result within
  the bound.
\<close>

theorem C1_budget_bound_witness:
  "(0::int) < 2 \<and> 2 < estimate_tokens (final_text two_short_records 2) \<and>
   estimate_tokens (truncate_text_by_tokens (replicate 9 97) 2) \<le> 2 + estimate_tokens marker \<and>
   estimate_tokens (truncate_search_results two_short_records 2) \<le> 2 + estimate_tokens marker"
proof -
  have budget: "(0::int) < 2"
    by simp
  have overflow: "2 < estimate_tokens (final_text two_short_records 2)"
    by code_simp
  from C1_budget_bound [OF budget, of "replicate 9 97" two_short_records]
  have "estimate_tokens (truncate_text_by_tokens (replicate 9 97) 2) \<le> 2 + estimate_tokens marker"
    and "estimate_tokens (truncate_search_results two_short_records 2) \<le> 2 + estimate_tokens marker"
    by blast+
  with budget overflow show ?thesis
    by blast
qed

text \<open>
  C2, as stated, fails: with a budget of 20 the second of two 14-token records is dropped
  (6 tokens remain, not more than 100) and the result is the first block alone, without
  the marker.
\<close>

theorem C2_counterexample:
  "(0::int) < 20 \<and>
   combine [record_A, record_B] 20 0 [] = [result_text record_A] \<and>
   truncate_search_results (Results [record_A, record_B]) 20 = result_text record_A \<and>
   \<not> endswith (truncate_search_results (Results [record_A, record_B]) 20) marker"
  by code_simp

text \<open>
  C2, amended: for a positive budget the result ends with the marker if and only if a text
  was truncated (the over-budget block was included in part, or the final pass cut the
  joined text) or the untruncated text already ends with the marker. A record dropped whole
  adds no marker: when no block is included in part and the joined whole blocks fit the
  budget, the result is exactly those blocks joined.
\<close>

theorem C2_marker_iff_text_truncated:
  assumes "0 < b"
  shows "(endswith (truncate_search_results (Text s) b) marker \<longleftrightarrow>
            b < estimate_tokens s \<or> endswith s marker) \<and>
         (\<forall>k. stops_at rs b k \<longrightarrow>
            (endswith (truncate_search_results (Results rs) b) marker \<longleftrightarrow>
               partial_block rs b k \<noteq> [] \<or>
               b < estimate_tokens (final_text (Results rs) b) \<or>
               endswith (join newlines (map result_text (take k rs))) marker) \<and>
            (partial_block rs b k = [] \<and> estimate_tokens (final_text (Results rs) b) \<le> b \<longrightarrow>
               truncate_search_results (Results rs) b =
                 join newlines (map result_text (take k rs))))"
proof (intro conjI allI impI)
  show "endswith (truncate_search_results (Text s) b) marker \<longleftrightarrow>
          b < estimate_tokens s \<or> endswith s marker"
    using assms by (simp add: truncate_search_results_Text truncate_text_by_tokens_endswith)
next
  fix k assume k: "stops_at rs b k"
  show "endswith (truncate_search_results (Results rs) b) marker \<longleftrightarrow>
          partial_block rs b k \<noteq> [] \<or>
          b < estimate_tokens (final_text (Results rs) b) \<or>
          endswith (join newlines (map result_text (take k rs))) marker"
    using assms final_text_endswith [OF k]
    by (auto simp: truncate_search_results_Results truncate_text_by_tokens_endswith)
next
  fix k
  assume k: "stops_at rs b k"
    and "partial_block rs b k = [] \<and> estimate_tokens (final_text (Results rs) b) \<le> b"
  then have "partial_block rs b k = []" and "estimate_tokens (final_text (Results rs) b) \<le> b"
    by simp_all
  moreover from this(1) have "final_text (Results rs) b = join newlines (map result_text (take k rs))"
    by (simp add: final_text_Results [OF k])
  ultimately show "truncate_search_results (Results rs) b =
      join newlines (map result_text (take k rs))"
    using assms by (simp add: truncate_search_results_Results truncate_text_by_tokens_fits)
qed

theorem C2_marker_iff_text_truncated_witness:
  "(0::int) < 20 \<and> stops_at [record_A, record_B] 20 1 \<and>
   partial_block [record_A, record_B] 20 1 = [] \<and>
   estimate_tokens (final_text (Results [record_A, record_B]) 20) \<le> 20 \<and>
   truncate_search_results (Results [record_A, record_B]) 20 = result_text record_A \<and>
   20 < estimate_tokens (replicate 100 97) \<and>
   endswith (truncate_search_results (Text (replicate 100 97)) 20) marker"
proof -
  have budget: "(0::int) < 20"
    by simp
  have fits: "estimate_tokens (final_text (Results [record_A, record_B]) 20) \<le> 20"
    by code_simp
  have over: "20 < estimate_tokens (replicate 100 97)"
    by (simp add: estimate_tokens_def)
  from C2_marker_iff_text_truncated [OF budget, of "replicate 100 97" "[record_A, record_B]"]
  have t: "endswith (truncate_search_results (Text (replicate 100 97)) 20) marker \<longleftrightarrow>
             20 < estimate_tokens (replicate 100 97) \<or> endswith (replicate 100 97) marker"
    and r: "stops_at [record_A, record_B] 20 1 \<longrightarrow>
             (partial_block [record_A, record_B] 20 1 = [] \<and>
              estimate_tokens (final_text (Results [record_A, record_B]) 20) \<le> 20 \<longrightarrow>
              truncate_search_results (Results [record_A, record_B]) 20 =
                join newlines (map result_text (take 1 [record_A, record_B])))"
    by blast+
  from t over have "endswith (truncate_search_results (Text (replicate 100 97)) 20) marker"
    by blast
  moreover from r stops_at_A_B partial_block_A_B fits
  have "truncate_search_results (Results [record_A, record_B]) 20 = result_text record_A"
    by (simp del: combine.simps)
  ultimately show ?thesis
    using budget stops_at_A_B partial_block_A_B fits over by blast
qed

text \<open>
  C3, as stated, fails: with a budget of 5 and the last space of the 20-character prefix
  at index 17, the first pass returns 17 characters and the marker (37 characters, 9
  estimated tokens); the second pass cuts that again at 20 characters, inside the marker,
  and appends the marker once more.
\<close>

theorem C3_counterexample:
  "truncate_text_by_tokens (truncate_text_by_tokens space_at_17 5) 5 \<noteq>
     truncate_text_by_tokens space_at_17 5"
  by code_simp

text \<open>
  C3, amended: truncating twice with the same budget gives the same result as truncating
  once exactly when the first pass does not back off to a space within the last 16
  characters of the prefix, that is, unless \<open>estimate_tokens t > b > 0\<close>, the cut is made at
  the last space and \<open>last_space \<ge> 4 * b - 16\<close>. In particular it does for every text
  within the budget, for every budget \<open>\<le> 0\<close> and for every hard cut.
\<close>

theorem C3_idempotent_iff:
  "truncate_text_by_tokens (truncate_text_by_tokens t b) b = truncate_text_by_tokens t b \<longleftrightarrow>
     \<not> (0 < b \<and> b < estimate_tokens t \<and> gt_times_08 (last_space t b) (b * 4) \<and>
        b * 4 \<le> last_space t b + 16)"
proof (cases "0 < b \<and> b < estimate_tokens t")
  case False
  then consider "b \<le> 0" | "0 < b" "estimate_tokens t \<le> b" by linarith
  then have "truncate_text_by_tokens (truncate_text_by_tokens t b) b = truncate_text_by_tokens t b"
  proof cases
    case 1
    then show ?thesis by (simp add: truncate_text_by_tokens_nonpos)
  next
    case 2
    then show ?thesis by (simp add: truncate_text_by_tokens_fits)
  qed
  with False show ?thesis by blast
next
  case True
  then have b: "0 < b" and e: "b < estimate_tokens t" by simp_all
  show ?thesis
  proof (cases "gt_times_08 (last_space t b) (b * 4)")
    case False
    with hard_cut_stable [OF b e] show ?thesis by blast
  next
    case g: True
    show ?thesis
    proof (cases "b * 4 \<le> last_space t b + 16")
      case True
      with soft_cut_unstable [OF b e g] b e g show ?thesis by blast
    next
      case False
      then have "last_space t b + 16 < b * 4" by simp
      with soft_cut_stable [OF b e g] False show ?thesis by blast
    qed
  qed
qed

theorem C3_idempotent_iff_witness:
  "\<not> (0 < (5::int) \<and> 5 < estimate_tokens space_at_16 \<and>
       gt_times_08 (last_space space_at_16 5) (5 * 4) \<and> 5 * 4 \<le> last_space space_at_16 5 + 16) \<and>
   truncate_text_by_tokens (truncate_text_by_tokens space_at_16 5) 5 =
     truncate_text_by_tokens space_at_16 5"
proof -
  have "\<not> gt_times_08 (last_space space_at_16 5) (5 * 4)"
    by code_simp
  then have c: "\<not> (0 < (5::int) \<and> 5 < estimate_tokens space_at_16 \<and>
       gt_times_08 (last_space space_at_16 5) (5 * 4) \<and> 5 * 4 \<le> last_space space_at_16 5 + 16)"
    by blast
  with C3_idempotent_iff [of space_at_16 5] show ?thesis
    by blast
qed

text \<open>
  C4: the claim asks \<open>truncate_search_results\<close> to render a record without a title as
  \<open>No Title\<close> and a record without content from its snippet, or as \<open>No content\<close>. The loop
  of \<open>truncate_search_results\<close> renders both missing fields as the empty string and never
  reads the snippet; \<open>truncated_web_search\<close> in \<open>search.py\<close> renders the same records with
  the defaults of the claim.
\<close>

theorem C4_missing_fields_not_defaulted:
  "truncate_search_results (Results [Dict snippet_only]) 100 = ascii ''## '' @ newlines \<and>
   truncate_search_results (Results [Dict Map.empty]) 100 = ascii ''## '' @ newlines \<and>
   truncated_web_search [snippet_only] 100 = ascii ''## No Title'' @ newlines @ ascii ''hello'' \<and>
   truncated_web_search [Map.empty] 100 = ascii ''## No Title'' @ newlines @ ascii ''No content''"
  by code_simp

text \<open>
  C5, as stated, fails: a list with one record of 14 estimated tokens and a budget of 5
  gives the empty string, since the block is over budget and not more than 100 tokens
  remain.
\<close>

theorem C5_counterexample:
  "\<not> is_empty (Results [record_A]) \<and> (0::int) < 5 \<and>
   truncate_search_results (Results [record_A]) 5 = []"
  by code_simp

text \<open>
  C5, amended: for a positive budget, a non-empty string gives a non-empty result; a list
  whose first element renders to a non-empty block (as every dictionary does) gives a
  non-empty result exactly when that block fits the budget or the budget is more than 100.
\<close>

theorem C5_nonempty_result:
  assumes "0 < b"
  shows "(s \<noteq> [] \<longrightarrow> truncate_search_results (Text s) b \<noteq> []) \<and>
         (result_text r \<noteq> [] \<longrightarrow>
            (truncate_search_results (Results (r # rs)) b \<noteq> [] \<longleftrightarrow>
               block_tokens r \<le> b \<or> 100 < b)) \<and>
         result_text (Dict d) \<noteq> []"
proof (intro conjI impI)
  assume "s \<noteq> []"
  with assms show "truncate_search_results (Text s) b \<noteq> []"
    by (simp add: truncate_search_results_Text truncate_text_by_tokens_empty_iff)
next
  assume r: "result_text r \<noteq> []"
  show "truncate_search_results (Results (r # rs)) b \<noteq> [] \<longleftrightarrow> block_tokens r \<le> b \<or> 100 < b"
  proof (cases "block_tokens r \<le> b")
    case True
    with r assms show ?thesis
      by (simp add: truncate_search_results_Results truncate_text_by_tokens_empty_iff
          final_text_first_fits)
  next
    case False
    then have "final_text (Results (r # rs)) b =
                 (if 100 < b then truncate_text_by_tokens (result_text r) b else [])"
      by (simp add: final_text_first_over)
    with False r assms show ?thesis
      by (simp add: truncate_search_results_Results truncate_text_by_tokens_empty_iff)
  qed
next
  show "result_text (Dict d) \<noteq> []" by (rule result_text_Dict_nonempty)
qed

theorem C5_nonempty_result_witness:
  "(0::int) < 20 \<and> ascii ''abc'' \<noteq> [] \<and> truncate_search_results (Text (ascii ''abc'')) 20 \<noteq> [] \<and>
   result_text record_A \<noteq> [] \<and> block_tokens record_A \<le> 20 \<and>
   truncate_search_results (Results [record_A, record_B]) 20 \<noteq> []"
proof -
  have budget: "(0::int) < 20"
    by simp
  have s: "ascii ''abc'' \<noteq> []"
    by (simp add: ascii_def)
  have r: "result_text record_A \<noteq> []"
    by (simp add: record_A_def ascii_def)
  have f: "block_tokens record_A \<le> 20"
    by code_simp
  from C5_nonempty_result [OF budget, of "ascii ''abc''" record_A "[record_B]"] s r f
  have "truncate_search_results (Text (ascii ''abc'')) 20 \<noteq> []"
    and "truncate_search_results (Results [record_A, record_B]) 20 \<noteq> []"
    by blast+
  with budget s r f show ?thesis
    by blast
qed

text \<open>
  C6, as stated, fails where the last space sits exactly at \<open>0.8 * charLimit\<close>: with a
  budget of 5 the limit is 20 characters, the last space of the prefix is at index 16,
  \<open>16 \<ge> 0.8 * 20\<close> holds, and the result is the hard cut at 20 characters, not the cut at
  the space.
\<close>

theorem C6_counterexample:
  "0 < (5::int) \<and> 5 < estimate_tokens space_at_16 \<and>
   rfind (take 20 space_at_16) space = 16 \<and> (4::int) * 20 \<le> 5 * 16 \<and>
   truncate_text_by_tokens space_at_16 5 = take 20 space_at_16 @ marker \<and>
   truncate_text_by_tokens space_at_16 5 \<noteq> take 16 space_at_16 @ marker"
  by code_simp

text \<open>
  C6, amended: for every text that must be cut (\<open>estimate_tokens t > b > 0\<close>), with
  \<open>last_space\<close> the index of the last space within the prefix of \<open>4 * b\<close> characters: if
  \<open>last_space > 0.8 * charLimit\<close> (strictly; the comparison the code makes in double
  precision) the result is the prefix cut at the space followed by the marker, otherwise
  the hard cut at \<open>charLimit\<close> followed by the marker. Below \<open>2^50\<close> characters the double
  precision comparison is the exact one, \<open>4 * charLimit < 5 * last_space\<close>.
\<close>

theorem C6_backoff_strictly_above:
  assumes "0 < b" "b < estimate_tokens t"
  shows "last_space t b = rfind (take (nat (b * 4)) t) space \<and>
         truncate_text_by_tokens t b =
           (if gt_times_08 (last_space t b) (b * 4)
            then take (nat (last_space t b)) t
            else take (nat (b * 4)) t) @ marker \<and>
         (b * 4 < 2 ^ 50 \<longrightarrow>
            (gt_times_08 (last_space t b) (b * 4) \<longleftrightarrow> 4 * (b * 4) < 5 * last_space t b))"
proof (intro conjI impI)
  show "last_space t b = rfind (take (nat (b * 4)) t) space"
    using assms(1) by (simp add: last_space_def py_slice_to_nonneg)
  show "truncate_text_by_tokens t b =
           (if gt_times_08 (last_space t b) (b * 4)
            then take (nat (last_space t b)) t
            else take (nat (b * 4)) t) @ marker"
    using assms by (rule truncate_text_by_tokens_cut_take)
  assume "b * 4 < 2 ^ 50"
  with assms(1) show "gt_times_08 (last_space t b) (b * 4) \<longleftrightarrow> 4 * (b * 4) < 5 * last_space t b"
    by (intro gt_times_08_exact) simp_all
qed

theorem C6_backoff_strictly_above_witness:
  "0 < (5::int) \<and> 5 < estimate_tokens space_at_17 \<and> (5::int) * 4 < 2 ^ 50 \<and>
   last_space space_at_17 5 = 17 \<and> gt_times_08 17 20 \<and>
   truncate_text_by_tokens space_at_17 5 = take 17 space_at_17 @ marker"
proof -
  have b: "0 < (5::int)"
    by simp
  have e: "5 < estimate_tokens space_at_17"
    by code_simp
  have l: "last_space space_at_17 5 = 17"
    by code_simp
  have small: "(5::int) * 4 < 2 ^ 50"
    by simp
  from C6_backoff_strictly_above [OF b e] small
  have g: "gt_times_08 (last_space space_at_17 5) (5 * 4) \<longleftrightarrow>
             4 * (5 * 4) < 5 * last_space space_at_17 5"
    and t: "truncate_text_by_tokens space_at_17 5 =
             (if gt_times_08 (last_space space_at_17 5) (5 * 4)
              then take (nat (last_space space_at_17 5)) space_at_17
              else take (nat (5 * 4)) space_at_17) @ marker"
    by blast+
  from g have g': "gt_times_08 17 20"
    by (simp add: l)
  with t have "truncate_text_by_tokens space_at_17 5 = take 17 space_at_17 @ marker"
    by (simp add: l)
  with b e small l g' show ?thesis
    by blast
qed

text \<open>
  C7: the loop of \<open>truncate_search_results\<close> appends whole rendered blocks in input order
  while the running token total stays within the budget. There is exactly one position
  \<open>k\<close> where it stops (\<open>stops_at\<close>: every block before \<open>k\<close> keeps the total within the budget, and
  block \<open>k\<close>, if any, is the first to push it over). The blocks collected are the first
  \<open>k\<close> rendered blocks followed by \<open>partial_block\<close>: the truncation of block \<open>k\<close> to
  the remaining tokens if and only if more than 100 tokens remain. No record after block
  \<open>k\<close> changes what is collected, and the result is the final truncation of the joined
  blocks.
\<close>

theorem C7_whole_blocks_then_partial:
  "(\<exists>!k. stops_at rs b k) \<and>
   (\<forall>k. stops_at rs b k \<longrightarrow>
      combine rs b 0 [] = map result_text (take k rs) @ partial_block rs b k \<and>
      (k < length rs \<longrightarrow>
         (\<forall>later. combine (take (Suc k) rs @ later) b 0 [] = combine rs b 0 [])) \<and>
      truncate_search_results (Results rs) b =
        (if rs = [] then []
         else truncate_text_by_tokens
                (join newlines (map result_text (take k rs) @ partial_block rs b k)) b))"
proof (intro conjI allI impI)
  show "\<exists>!k. stops_at rs b k"
    using stops_at_exists stops_at_unique by (rule ex_ex1I)
next
  fix k assume k: "stops_at rs b k"
  then show c: "combine rs b 0 [] = map result_text (take k rs) @ partial_block rs b k"
    using combine_closed_form [of rs b 0 k "[]"] by simp
  then show "truncate_search_results (Results rs) b =
        (if rs = [] then []
         else truncate_text_by_tokens
                (join newlines (map result_text (take k rs) @ partial_block rs b k)) b)"
    by (simp add: truncate_search_results_def final_text.simps)
next
  fix k later assume "stops_at rs b k" "k < length rs"
  then show "combine (take (Suc k) rs @ later) b 0 [] = combine rs b 0 []"
    by (rule combine_prefix)
qed

text \<open>
  With a budget of 20 the first of two 14-token blocks is appended whole, the second
  pushes the total to 28 and only 6 tokens remain, so it is left out; a third record
  changes nothing.
\<close>

theorem C7_whole_blocks_then_partial_witness:
  "stops_at [record_A, record_B] 20 1 \<and>
   combine [record_A, record_B] 20 0 [] = [result_text record_A] \<and>
   combine ([record_A, record_B] @ [record_A]) 20 0 [] = combine [record_A, record_B] 20 0 [] \<and>
   truncate_search_results (Results [record_A, record_B]) 20 =
     truncate_text_by_tokens (result_text record_A) 20"
proof -
  note k = stops_at_A_B
  from C7_whole_blocks_then_partial [of "[record_A, record_B]" 20] k
  have a: "combine [record_A, record_B] 20 0 [] =
             map result_text (take 1 [record_A, record_B]) @ partial_block [record_A, record_B] 20 1"
    and b: "1 < length [record_A, record_B] \<longrightarrow>
             (\<forall>later. combine (take (Suc 1) [record_A, record_B] @ later) 20 0 [] =
                combine [record_A, record_B] 20 0 [])"
    and c: "truncate_search_results (Results [record_A, record_B]) 20 =
             (if [record_A, record_B] = [] then []
              else truncate_text_by_tokens
                (join newlines (map result_text (take 1 [record_A, record_B])
                   @ partial_block [record_A, record_B] 20 1)) 20)"
    by blast+
  from a have "combine [record_A, record_B] 20 0 [] = [result_text record_A]"
    unfolding partial_block_A_B by (simp del: combine.simps)
  moreover from b have
    "combine ([record_A, record_B] @ [record_A]) 20 0 [] = combine [record_A, record_B] 20 0 []"
    by (simp del: combine.simps)
  moreover from c have "truncate_search_results (Results [record_A, record_B]) 20 =
      truncate_text_by_tokens (result_text record_A) 20"
    unfolding partial_block_A_B by simp
  ultimately show ?thesis using k by blast
qed

text \<open>
  C8: for every budget \<open>b \<le> 0\<close> and every input, \<open>truncate_text_by_tokens\<close> and
  \<open>truncate_search_results\<close> return the empty string.
\<close>

theorem C8_nonpositive_budget:
  assumes "b \<le> 0"
  shows "truncate_text_by_tokens t b = [] \<and> truncate_search_results r b = []"
  using assms by (simp add: truncate_search_results_def truncate_text_by_tokens_nonpos)

theorem C8_nonpositive_budget_witness:
  "(-3::int) \<le> 0 \<and> truncate_text_by_tokens (ascii ''some text'') (-3) = [] \<and>
   truncate_search_results two_short_records (-3) = []"
  using C8_nonpositive_budget [of "-3" "ascii ''some text''" two_short_records] by simp

text \<open>
  C9, as stated, fails at budget 0: a text of three characters has estimate 0, which is
  within the budget, and the guard for budgets \<open>\<le> 0\<close> returns the empty string.
\<close>

theorem C9_counterexample:
  "estimate_tokens (ascii ''abc'') \<le> 0 \<and>
   truncate_text_by_tokens (ascii ''abc'') 0 \<noteq> ascii ''abc''"
  by code_simp

text \<open>
  C9, amended: for every text \<open>t\<close> and budget \<open>b\<close> with \<open>estimate_tokens t \<le> b\<close>, where
  \<open>b\<close> is positive or \<open>t\<close> is empty, \<open>truncate_text_by_tokens t b\<close> returns \<open>t\<close> unchanged,
  with no marker appended.
\<close>

theorem C9_fits_unchanged:
  assumes "estimate_tokens t \<le> b" "0 < b \<or> t = []"
  shows "truncate_text_by_tokens t b = t"
  using assms by (auto simp: truncate_text_by_tokens_fits) (simp add: truncate_text_by_tokens_def)

theorem C9_fits_unchanged_witness:
  "estimate_tokens (ascii ''abc'') \<le> 1 \<and> ((0::int) < 1 \<or> ascii ''abc'' = []) \<and>
   truncate_text_by_tokens (ascii ''abc'') 1 = ascii ''abc''"
proof -
  have e: "estimate_tokens (ascii ''abc'') \<le> 1"
    by code_simp
  have b: "(0::int) < 1 \<or> ascii ''abc'' = []"
    by simp
  from C9_fits_unchanged [OF e b] e b show ?thesis
    by blast
qed

text \<open>
  C10: \<open>get_max_token_limit\<close> falls back to 100000 when the configuration cannot be
  loaded, when the key is missing and when the value is a string that \<open>int\<close> rejects. A
  value that is neither a string nor a number is returned as it is: with
  \<open>MAX_TOKEN_LIMIT: null\<close> the budget is \<open>None\<close>, not 100000, and the call of
  \<open>truncate_search_results\<close> without a budget raises \<open>TypeError\<close> on a non-empty input.
\<close>

theorem C10_null_limit_not_defaulted:
  "get_max_token_limit int_of_str null_limit = PyNone \<and>
   get_max_token_limit int_of_str null_limit \<noteq> PyInt 100000 \<and>
   truncate_search_results_default int_of_str null_limit (Text (ascii ''some text'')) =
     Inl TypeError \<and>
   truncate_search_results_default int_of_str null_limit (Results [record_A]) = Inl TypeError"
  by (simp add: truncate_search_results_default_def get_max_token_limit_def null_limit_def
      ascii_def)

end
